theory Spec2Isabelle
  imports Complex_Main
begin

unbundle bit_operations_syntax

section \<open>Perceptual-hash duplicate detector (ImageDuplicateDetector.php)\<close>

text \<open>
  A shallow embedding of the class \<^verbatim>\<open>ImageDuplicateDetector\<close>. PHP strings are
  \<^typ>\<open>string\<close>, PHP integers that the code keeps non-negative are \<^typ>\<open>nat\<close>, the
  caller-supplied threshold is an \<^typ>\<open>int\<close>, and the intensities of \<^verbatim>\<open>generateHash\<close>,
  which are integers or doubles, have a type of their own. An exception that leaves a
  method is the \<open>Inl\<close> branch of a sum.
\<close>

datatype error =
    LoadFailure string       \<comment> \<open>\<^verbatim>\<open>Failed to load image: $imagePath\<close>\<close>
  | LengthMismatch           \<comment> \<open>\<^verbatim>\<open>Hashes must be the same length\<close>\<close>
  | DatabaseFailure string   \<comment> \<open>a \<^verbatim>\<open>PDOException\<close> with its message\<close>

subsection \<open>PHP library functions used on hashes\<close>

text \<open>
  \<^verbatim>\<open>hexdec\<close> on a one-character string: the value of a hexadecimal digit of either
  case; PHP ignores every other character, which gives 0.
\<close>

definition hexdec :: "char \<Rightarrow> nat" where
  "hexdec c = (let n = (of_char c :: nat) in
      if 48 \<le> n \<and> n \<le> 57 then n - 48
      else if 97 \<le> n \<and> n \<le> 102 then n - 87
      else if 65 \<le> n \<and> n \<le> 70 then n - 55
      else 0)"

text \<open>
  \<^verbatim>\<open>bindec\<close>: characters other than 0 and 1 are ignored.
\<close>

definition bindec :: "string \<Rightarrow> nat" where
  "bindec s = foldl (\<lambda>acc c. if c = CHR ''1'' then 2 * acc + 1
                            else if c = CHR ''0'' then 2 * acc else acc) 0 s"

definition hexDigit :: "nat \<Rightarrow> char" where
  "hexDigit d = ''0123456789abcdef'' ! d"

text \<open>\<^verbatim>\<open>dechex\<close>: lower-case digits, no leading zeros, \<^verbatim>\<open>"0"\<close> for 0.\<close>

fun dechex :: "nat \<Rightarrow> string" where
  "dechex n = (if n < 16 then [hexDigit n]
               else dechex (n div 16) @ [hexDigit (n mod 16)])"

declare dechex.simps [simp del]

text \<open>\<^verbatim>\<open>substr($s, $i, $len)\<close> for \<open>i\<close> inside the string.\<close>

definition substr :: "string \<Rightarrow> nat \<Rightarrow> nat \<Rightarrow> string" where
  "substr s i len = take len (drop i s)"

subsection \<open>hammingDistance\<close>

text \<open>
  The inner loop \<^verbatim>\<open>while ($xor) { $distance++; $xor &= $xor - 1; }\<close>, which clears the
  lowest set bit in each round.
\<close>

function countBits :: "nat \<Rightarrow> nat \<Rightarrow> nat" where
  "countBits x distance =
     (if x = 0 then distance else countBits (x AND (x - 1)) (distance + 1))"
  by pat_completeness auto
termination
proof (relation "measure fst")
  show "wf (measure fst)" by simp
next
  fix x distance :: nat
  assume nz: "x \<noteq> 0"
  have "int (x AND (x - 1)) = int x AND int (x - 1)"
    by (simp only: of_nat_and_eq)
  also have "\<dots> \<le> int (x - 1)"
    by (rule AND_upper2) simp
  finally have "x AND (x - 1) \<le> x - 1"
    by (simp only: of_nat_le_iff)
  with nz show "((x AND (x - 1), distance + 1), (x, distance)) \<in> measure fst"
    by simp
qed

declare countBits.simps [simp del]

text \<open>
  The body of the \<^verbatim>\<open>for\<close> loop at index \<open>i\<close>, and the loop over
  \<open>i = 0, \<dots>, strlen($hash1) - 1\<close>.
\<close>

definition hammingStep :: "string \<Rightarrow> string \<Rightarrow> nat \<Rightarrow> nat \<Rightarrow> nat" where
  "hammingStep hash1 hash2 distance i =
     (let val1 = hexdec (hash1 ! i);
          val2 = hexdec (hash2 ! i)
      in countBits (val1 XOR val2) distance)"

definition hammingDistance :: "string \<Rightarrow> string \<Rightarrow> error + nat" where
  "hammingDistance hash1 hash2 =
     (if length hash1 \<noteq> length hash2 then Inl LengthMismatch
      else Inr (foldl (hammingStep hash1 hash2) 0 [0..<length hash1]))"

subsection \<open>generateHash\<close>

text \<open>
  A file is represented by what the library calls of the class read from its bytes:
  the MIME type \<^verbatim>\<open>finfo_file\<close> reports, its size, and the image GD makes of it. The
  last is the result of \<^verbatim>\<open>loadImage\<close> followed by \<^verbatim>\<open>imagecopyresampled\<close> onto the
  \<open>hashSize \<times> hashSize\<close> canvas, given as the value of \<^verbatim>\<open>imagecolorat($resized, $x, $y)\<close>;
  it is \<open>None\<close> when \<^verbatim>\<open>loadImage\<close> returns false.
\<close>

record file_data =
  fd_mime :: string
  fd_size :: nat
  fd_resized :: "(nat \<Rightarrow> nat \<Rightarrow> int) option"

type_synonym filesystem = "string \<rightharpoonup> file_data"

definition hashSize :: nat where
  "hashSize = 8"

definition loadImage :: "filesystem \<Rightarrow> string \<Rightarrow> (nat \<Rightarrow> nat \<Rightarrow> int) option" where
  "loadImage fs path = (case fs path of None \<Rightarrow> None | Some f \<Rightarrow> fd_resized f)"

text \<open>
  PHP numbers. A number is an integer or a double; \<open>Double m e\<close> stands for the double of
  value \<open>m * 2\<^sup>e\<close>. The operators below are the ones of the engine for the operand types
  that occur in \<^verbatim>\<open>generateHash\<close>: the quotient of two integers is an integer when the
  division leaves no remainder and a double otherwise, a sum of two integers is an integer,
  and every other sum or quotient converts both operands to doubles and rounds the exact
  result to the nearest double, to the even mantissa on a tie. The numbers of the class are
  0 or lie between 1/3 and 16320, so neither the exponent range of doubles nor the range of
  integers is reached and neither is modelled; the divisors are the constants 3 and 64.
\<close>

datatype number = Long int | Double int int

text \<open>The number of binary digits of a positive integer.\<close>

function bitLength :: "int \<Rightarrow> int" where
  "bitLength n = (if n \<le> 0 then 0 else 1 + bitLength (n div 2))"
  by pat_completeness auto
termination
  by (relation "measure nat") auto

declare bitLength.simps [simp del]

definition shiftLeft :: "int \<Rightarrow> int \<Rightarrow> int" where
  "shiftLeft n k = n * 2 ^ nat k"

text \<open>The fraction \<open>n * 2\<^sup>k / d\<close> as a numerator and a denominator, for any sign of \<open>k\<close>.\<close>

definition scaled :: "int \<Rightarrow> int \<Rightarrow> int \<Rightarrow> int \<times> int" where
  "scaled n d k = (if 0 \<le> k then (shiftLeft n k, d) else (n, shiftLeft d (- k)))"

text \<open>The integer nearest to \<open>n / d\<close> for \<open>0 \<le> n\<close> and \<open>0 < d\<close>, the even one of two at a tie.\<close>

definition roundHalfEven :: "int \<Rightarrow> int \<Rightarrow> int" where
  "roundHalfEven n d =
     (let f = n div d; r = n mod d
      in if 2 * r < d then f else if d < 2 * r then f + 1 else if even f then f else f + 1)"

text \<open>
  The double nearest to \<open>(n / d) * 2\<^sup>e\<close>, for \<open>0 < d\<close>, as mantissa and exponent: \<open>k\<close> is
  chosen so that \<open>2 ^ 52 \<le> \<bar>n\<bar> * 2\<^sup>k / d < 2 ^ 53\<close>, which leaves the 53 binary digits of a
  double before the point.
\<close>

definition roundDouble :: "int \<Rightarrow> int \<Rightarrow> int \<Rightarrow> int \<times> int" where
  "roundDouble n d e =
     (if n = 0 then (0, 0)
      else let k0 = 53 + bitLength d - bitLength \<bar>n\<bar>;
               (n0, d0) = scaled \<bar>n\<bar> d k0;
               k = (if 2 ^ 53 \<le> n0 div d0 then k0 - 1 else k0);
               (n1, d1) = scaled \<bar>n\<bar> d k
           in (sgn n * roundHalfEven n1 d1, e - k))"

definition toDouble :: "number \<Rightarrow> int \<times> int" where
  "toDouble a = (case a of Long i \<Rightarrow> roundDouble i 1 0 | Double m e \<Rightarrow> (m, e))"

definition doubleSum :: "number \<Rightarrow> number \<Rightarrow> number" where
  "doubleSum a b =
     (let (m1, e1) = toDouble a;
          (m2, e2) = toDouble b;
          e = min e1 e2;
          (m, e') = roundDouble (shiftLeft m1 (e1 - e) + shiftLeft m2 (e2 - e)) 1 e
      in Double m e')"

definition doubleQuotient :: "number \<Rightarrow> number \<Rightarrow> number" where
  "doubleQuotient a b =
     (let (m1, e1) = toDouble a;
          (m2, e2) = toDouble b;
          (m, e') = roundDouble (m1 * sgn m2) \<bar>m2\<bar> (e1 - e2)
      in Double m e')"

text \<open>The operators \<^verbatim>\<open>+\<close>, \<^verbatim>\<open>/\<close> and \<^verbatim>\<open>>\<close>.\<close>

definition php_add :: "number \<Rightarrow> number \<Rightarrow> number" where
  "php_add a b =
     (case (a, b) of
        (Long x, Long y) \<Rightarrow> Long (x + y)
      | _ \<Rightarrow> doubleSum a b)"

definition php_div :: "number \<Rightarrow> number \<Rightarrow> number" where
  "php_div a b =
     (case (a, b) of
        (Long x, Long y) \<Rightarrow> if x mod y = 0 then Long (x div y) else doubleQuotient a b
      | _ \<Rightarrow> doubleQuotient a b)"

definition php_greater :: "number \<Rightarrow> number \<Rightarrow> bool" where
  "php_greater a b =
     (case (a, b) of
        (Long x, Long y) \<Rightarrow> y < x
      | _ \<Rightarrow>
          (let (m1, e1) = toDouble a;
               (m2, e2) = toDouble b;
               e = min e1 e2
           in shiftLeft m2 (e2 - e) < shiftLeft m1 (e1 - e)))"

text \<open>\<^verbatim>\<open>array_sum\<close> starts from the integer 0 and adds the elements from left to right.\<close>

definition array_sum :: "number list \<Rightarrow> number" where
  "array_sum pixels = foldl php_add (Long 0) pixels"

text \<open>\<^verbatim>\<open>$gray = ($r + $g + $b) / 3\<close> for the colour \<^verbatim>\<open>$rgb\<close> of a cell.\<close>

definition grayscale :: "int \<Rightarrow> number" where
  "grayscale rgb =
     (let r = drop_bit 16 rgb AND 0xFF;
          g = drop_bit 8 rgb AND 0xFF;
          b = rgb AND 0xFF
      in php_div (Long (r + g + b)) (Long 3))"

text \<open>The two nested \<^verbatim>\<open>for\<close> loops, \<open>y\<close> outside and \<open>x\<close> inside.\<close>

definition pixelValues :: "(nat \<Rightarrow> nat \<Rightarrow> int) \<Rightarrow> number list" where
  "pixelValues resized =
     concat (map (\<lambda>y. map (\<lambda>x. grayscale (resized x y)) [0..<hashSize]) [0..<hashSize])"

text \<open>
  \<^verbatim>\<open>$average = array_sum($pixels) / count($pixels)\<close>, and the loop that appends 1 for a
  pixel above the average and 0 otherwise.
\<close>

definition binaryHash :: "number list \<Rightarrow> string" where
  "binaryHash pixels =
     (let average = php_div (array_sum pixels) (Long (int (length pixels)))
      in map (\<lambda>pixel. if php_greater pixel average then CHR ''1'' else CHR ''0'') pixels)"

text \<open>
  \<^verbatim>\<open>for ($i = 0; $i < strlen($hash); $i += 4) $hexHash .= dechex(bindec(substr($hash, $i, 4)))\<close>
\<close>

function hexLoop :: "string \<Rightarrow> nat \<Rightarrow> string \<Rightarrow> string" where
  "hexLoop hash i hexHash =
     (if i < length hash
      then hexLoop hash (i + 4) (hexHash @ dechex (bindec (substr hash i 4)))
      else hexHash)"
  by pat_completeness auto
termination
  by (relation "measure (\<lambda>(hash, i, hexHash). length hash - i)") auto

declare hexLoop.simps [simp del]

definition binToHex :: "string \<Rightarrow> string" where
  "binToHex hash = hexLoop hash 0 []"

definition generateHash :: "filesystem \<Rightarrow> string \<Rightarrow> error + string" where
  "generateHash fs imagePath =
     (case loadImage fs imagePath of
        None \<Rightarrow> Inl (LoadFailure imagePath)
      | Some resized \<Rightarrow> Inr (binToHex (binaryHash (pixelValues resized))))"

subsection \<open>The detector: upload directory and the table \<^verbatim>\<open>images\<close>\<close>

record image_row =
  row_id :: nat
  row_filename :: string
  row_file_path :: string
  row_phash :: string
  row_mime_type :: string
  row_file_size :: nat
  row_upload_date :: nat

text \<open>
  The rows of the table are kept in primary-key order, which is the order in which the
  \<^verbatim>\<open>SELECT\<close> of \<^verbatim>\<open>findDuplicate\<close> fetches them; \<open>next_id\<close> is the \<^verbatim>\<open>AUTO_INCREMENT\<close>
  counter.
\<close>

record detector =
  uploadDir :: string
  files :: filesystem
  images :: "image_row list"
  next_id :: nat

subsection \<open>findDuplicate\<close>

record match =
  m_id :: nat
  m_filename :: string
  m_file_path :: string
  m_upload_date :: nat
  m_similarity :: rat
  m_hamming_distance :: nat

definition duplicateInfo :: "image_row \<Rightarrow> nat \<Rightarrow> match" where
  "duplicateInfo row distance =
     \<lparr> m_id = row_id row,
       m_filename = row_filename row,
       m_file_path = row_file_path row,
       m_upload_date = row_upload_date row,
       m_similarity = 100 - (of_nat distance * 100 / 64),
       m_hamming_distance = distance \<rparr>"

text \<open>The \<^verbatim>\<open>while ($row = $stmt->fetch(...))\<close> loop over the fetched rows.\<close>

fun scanRows :: "string \<Rightarrow> int \<Rightarrow> image_row list \<Rightarrow> error + match option" where
  "scanRows hash threshold [] = Inr None"
| "scanRows hash threshold (row # rest) =
     (case hammingDistance hash (row_phash row) of
        Inl e \<Rightarrow> Inl e
      | Inr distance \<Rightarrow>
          if int distance \<le> threshold then Inr (Some (duplicateInfo row distance))
          else scanRows hash threshold rest)"

definition findDuplicate :: "detector \<Rightarrow> string \<Rightarrow> int \<Rightarrow> error + match option" where
  "findDuplicate st imagePath threshold =
     (case generateHash (files st) imagePath of
        Inl e \<Rightarrow> Inl e
      | Inr hash \<Rightarrow> scanRows hash threshold (images st))"

subsection \<open>saveImage\<close>

text \<open>
  The element of \<^verbatim>\<open>$_FILES\<close> handed to \<^verbatim>\<open>saveImage\<close>, and what the environment decides
  during one call of a method: the string \<^verbatim>\<open>uniqid('img_', true)\<close> returns, whether
  \<^verbatim>\<open>move_uploaded_file\<close> succeeds, the message of the exception the \<^verbatim>\<open>INSERT\<close> of
  \<^verbatim>\<open>saveImage\<close> throws (if it throws), the message of the exception the \<^verbatim>\<open>DELETE\<close> of
  \<^verbatim>\<open>deleteImage\<close> throws (if it throws), and the value of \<^verbatim>\<open>NOW()\<close>. The connection is
  in \<^verbatim>\<open>PDO::ERRMODE_EXCEPTION\<close> (config.php), so a statement that fails throws. The two
  \<^verbatim>\<open>SELECT\<close> statements change nothing and are taken to succeed.
\<close>

record upload =
  up_name :: string
  up_tmp_name :: string
  up_error :: nat

record environment =
  env_uniqid :: string
  env_move_ok :: bool
  env_insert_error :: "string option"
  env_delete_error :: "string option"
  env_now :: nat

text \<open>The arrays \<^verbatim>\<open>saveImage\<close> returns, one constructor for each \<^verbatim>\<open>return\<close>.\<close>

datatype save_result =
    UploadError nat                   \<comment> \<open>\<^verbatim>\<open>'Upload error: ' . $file['error']\<close>\<close>
  | InvalidImageType                  \<comment> \<open>\<^verbatim>\<open>'Invalid image type. ...'\<close>\<close>
  | DuplicateDetected match           \<comment> \<open>\<^verbatim>\<open>'Duplicate image detected'\<close>, with \<^verbatim>\<open>'duplicate'\<close>\<close>
  | FailedToSave                      \<comment> \<open>\<^verbatim>\<open>'Failed to save image'\<close>\<close>
  | DatabaseError string              \<comment> \<open>\<^verbatim>\<open>'Database error: ' . $e->getMessage()\<close>\<close>
  | Saved nat string string string    \<comment> \<open>success: id, filename, original name, hash\<close>

definition UPLOAD_ERR_OK :: nat where
  "UPLOAD_ERR_OK = 0"

definition allowedTypes :: "string list" where
  "allowedTypes = [''image/jpeg'', ''image/png'', ''image/gif'', ''image/webp'']"

definition getMessage :: "error \<Rightarrow> string" where
  "getMessage e =
     (case e of
        LoadFailure path \<Rightarrow> ''Failed to load image: '' @ path
      | LengthMismatch \<Rightarrow> ''Hashes must be the same length''
      | DatabaseFailure msg \<Rightarrow> msg)"

text \<open>
  \<^verbatim>\<open>pathinfo($name, PATHINFO_EXTENSION)\<close> for a plain file name, as \<^verbatim>\<open>$_FILES\<close> delivers
  it: what follows the last dot, and the empty string when there is no dot.
\<close>

definition pathinfo_extension :: "string \<Rightarrow> string" where
  "pathinfo_extension name =
     (if CHR ''.'' \<in> set name then rev (takeWhile (\<lambda>c. c \<noteq> CHR ''.'') (rev name)) else [])"

text \<open>
  File-system calls. \<^verbatim>\<open>finfo_file\<close> and \<^verbatim>\<open>filesize\<close> return false for a file that does
  not exist (rendered as \<open>None\<close> and as 0); \<^verbatim>\<open>move_uploaded_file\<close> returns false, and
  changes nothing, when the environment refuses the move or the source does not exist.
\<close>

definition finfo_file :: "filesystem \<Rightarrow> string \<Rightarrow> string option" where
  "finfo_file fs path = map_option fd_mime (fs path)"

definition filesize :: "filesystem \<Rightarrow> string \<Rightarrow> nat" where
  "filesize fs path = (case fs path of None \<Rightarrow> 0 | Some content \<Rightarrow> fd_size content)"

definition unlink :: "string \<Rightarrow> detector \<Rightarrow> detector" where
  "unlink path st = st\<lparr>files := (files st)(path := None)\<rparr>"

definition move_uploaded_file ::
  "environment \<Rightarrow> string \<Rightarrow> string \<Rightarrow> detector \<Rightarrow> detector option" where
  "move_uploaded_file env tmp_name filepath st =
     (if \<not> env_move_ok env then None
      else case files st tmp_name of
        None \<Rightarrow> None
      | Some content \<Rightarrow>
          Some (st\<lparr>files := ((files st)(tmp_name := None))(filepath \<mapsto> content)\<rparr>))"

text \<open>
  The \<^verbatim>\<open>INSERT\<close>: the new row gets the value of the \<^verbatim>\<open>AUTO_INCREMENT\<close> counter as its
  id and is the last in primary-key order.
\<close>

definition insertRow :: "image_row \<Rightarrow> detector \<Rightarrow> detector" where
  "insertRow row st =
     st\<lparr>images := images st @ [row\<lparr>row_id := next_id st\<rparr>], next_id := next_id st + 1\<rparr>"

text \<open>
  The second half of \<^verbatim>\<open>saveImage\<close>, from \<^verbatim>\<open>// Generate unique filename\<close> on:
  \<open>newFilename\<close> is \<^verbatim>\<open>uniqid('img_', true) . '.' . $extension\<close>. Both an exception of
  \<^verbatim>\<open>generateHash\<close> and one of the \<^verbatim>\<open>INSERT\<close> land in the \<^verbatim>\<open>catch\<close> block, which
  unlinks the moved file.
\<close>

definition newFilename :: "environment \<Rightarrow> upload \<Rightarrow> string" where
  "newFilename env file =
     (let extension = pathinfo_extension (up_name file)
      in env_uniqid env @ ''.'' @ extension)"

definition storeUpload ::
  "detector \<Rightarrow> environment \<Rightarrow> upload \<Rightarrow> string \<Rightarrow> save_result \<times> detector" where
  "storeUpload st env file mimeType =
     (let filename = newFilename env file;
          filepath = uploadDir st @ filename
      in case move_uploaded_file env (up_tmp_name file) filepath st of
           None \<Rightarrow> (FailedToSave, st)
         | Some st1 \<Rightarrow>
             (case generateHash (files st1) filepath of
                Inl e \<Rightarrow> (DatabaseError (getMessage e), unlink filepath st1)
              | Inr hash \<Rightarrow>
                  (let file_size = filesize (files st1) filepath
                   in (case env_insert_error env of
                         Some msg \<Rightarrow> (DatabaseError msg, unlink filepath st1)
                       | None \<Rightarrow>
                           (Saved (next_id st1) filename (up_name file) hash,
                            insertRow \<lparr> row_id = 0,
                                        row_filename = up_name file,
                                        row_file_path = filename,
                                        row_phash = hash,
                                        row_mime_type = mimeType,
                                        row_file_size = file_size,
                                        row_upload_date = env_now env \<rparr> st1)))))"

text \<open>
  \<^verbatim>\<open>saveImage\<close>. The call of \<^verbatim>\<open>findDuplicate\<close> is outside the \<^verbatim>\<open>try\<close> block, so its
  exceptions leave the method; it is called with the default threshold 5. The value false
  of \<^verbatim>\<open>finfo_file\<close> is not in the list of allowed types.
\<close>

definition saveImage ::
  "detector \<Rightarrow> environment \<Rightarrow> upload \<Rightarrow> bool \<Rightarrow> (error + save_result) \<times> detector" where
  "saveImage st env file allowDuplicates =
     (if up_error file \<noteq> UPLOAD_ERR_OK then (Inr (UploadError (up_error file)), st)
      else case finfo_file (files st) (up_tmp_name file) of
        None \<Rightarrow> (Inr InvalidImageType, st)
      | Some mimeType \<Rightarrow>
          if mimeType \<notin> set allowedTypes then (Inr InvalidImageType, st)
          else if \<not> allowDuplicates then
            (case findDuplicate st (up_tmp_name file) 5 of
               Inl e \<Rightarrow> (Inl e, st)
             | Inr (Some duplicate) \<Rightarrow> (Inr (DuplicateDetected duplicate), st)
             | Inr None \<Rightarrow>
                 (let (result, st') = storeUpload st env file mimeType in (Inr result, st')))
          else (let (result, st') = storeUpload st env file mimeType in (Inr result, st')))"

subsection \<open>deleteImage\<close>

text \<open>
  The \<^verbatim>\<open>SELECT ... WHERE id = :id\<close> fetches the first row with the id. When there is one,
  the file is unlinked first, if it exists, and then the \<^verbatim>\<open>DELETE\<close> is executed: it removes
  every row with the id and \<^verbatim>\<open>execute\<close> returns true, or it throws. The method has no
  \<^verbatim>\<open>catch\<close>, so the exception leaves it, with the file already unlinked and the row still
  in the table.
\<close>

definition deleteImage :: "detector \<Rightarrow> environment \<Rightarrow> nat \<Rightarrow> (error + bool) \<times> detector" where
  "deleteImage st env ident =
     (case find (\<lambda>row. row_id row = ident) (images st) of
        None \<Rightarrow> (Inr False, st)
      | Some imageRow \<Rightarrow>
          let filepath = uploadDir st @ row_file_path imageRow;
              st1 = (if files st filepath \<noteq> None then unlink filepath st else st)
          in (case env_delete_error env of
                Some msg \<Rightarrow> (Inl (DatabaseFailure msg), st1)
              | None \<Rightarrow>
                  (Inr True, st1\<lparr>images := filter (\<lambda>row. row_id row \<noteq> ident) (images st1)\<rparr>)))"

section \<open>Reference notions of the specification\<close>

text \<open>
  The specification speaks of a fingerprint as a sequence of bits; the class keeps it as
  hexadecimal digits, four bits to a digit, most significant bit first. \<open>fingerprintBits\<close>
  reads the bit sequence back from the stored string, and \<open>bitDifferences\<close> counts the
  positions at which two sequences differ.
\<close>

definition digitBits :: "nat \<Rightarrow> bool list" where
  "digitBits v = [bit v 3, bit v 2, bit v 1, bit v 0]"

definition fingerprintBits :: "string \<Rightarrow> bool list" where
  "fingerprintBits hash = concat (map (\<lambda>c. digitBits (hexdec c)) hash)"

definition bitDifferences :: "'a list \<Rightarrow> 'a list \<Rightarrow> nat" where
  "bitDifferences xs ys = length (filter (\<lambda>(p, q). p \<noteq> q) (zip xs ys))"

text \<open>The characters of the binary string \<^verbatim>\<open>$hash\<close> of \<^verbatim>\<open>generateHash\<close>.\<close>

definition isBit :: "char \<Rightarrow> bool" where
  "isBit c \<longleftrightarrow> c = CHR ''0'' \<or> c = CHR ''1''"

text \<open>
  The distance of a candidate fingerprint to the fingerprint of a stored record, in bits.
\<close>

definition storedDistance :: "string \<Rightarrow> image_row \<Rightarrow> nat" where
  "storedDistance f row = bitDifferences (fingerprintBits f) (fingerprintBits (row_phash row))"

text \<open>
  The fingerprint as the specification describes it, in exact arithmetic: the intensity of
  a cell is the plain average of its three channels, the mean is taken over the
  \<open>hashSize\<^sup>2\<close> cells, and the bit of a cell is 1 exactly when its intensity is strictly
  greater than the mean. \<open>valueOf\<close> is the exact value of a number of the class.
\<close>

definition intensity :: "int \<Rightarrow> rat" where
  "intensity rgb =
     of_int ((drop_bit 16 rgb AND 0xFF) + (drop_bit 8 rgb AND 0xFF) + (rgb AND 0xFF)) / 3"

definition cellIntensities :: "(nat \<Rightarrow> nat \<Rightarrow> int) \<Rightarrow> rat list" where
  "cellIntensities resized =
     concat (map (\<lambda>y. map (\<lambda>x. intensity (resized x y)) [0..<hashSize]) [0..<hashSize])"

definition meanIntensity :: "(nat \<Rightarrow> nat \<Rightarrow> int) \<Rightarrow> rat" where
  "meanIntensity resized = sum_list (cellIntensities resized) / of_nat (hashSize * hashSize)"

definition averageHash :: "(nat \<Rightarrow> nat \<Rightarrow> int) \<Rightarrow> string" where
  "averageHash resized =
     map (\<lambda>v. if meanIntensity resized < v then CHR ''1'' else CHR ''0'') (cellIntensities resized)"

definition valueOf :: "number \<Rightarrow> rat" where
  "valueOf a =
     (case a of
        Long i \<Rightarrow> of_int i
      | Double m e \<Rightarrow> if 0 \<le> e then of_int m * 2 ^ nat e else of_int m / 2 ^ nat (- e))"

text \<open>
  What the schema and \<^verbatim>\<open>generateHash\<close> guarantee of the table: the ids are a primary key
  below the \<^verbatim>\<open>AUTO_INCREMENT\<close> counter, and every stored fingerprint has 16 digits.
\<close>

definition wellFormed :: "detector \<Rightarrow> bool" where
  "wellFormed st \<longleftrightarrow>
     distinct (map row_id (images st)) \<and>
     (\<forall>row \<in> set (images st). row_id row < next_id st \<and> length (row_phash row) = 16)"

section \<open>Example data\<close>

text \<open>
  Images are given by their \<open>8 \<times> 8\<close> resample: the listed cells are white, the others
  black. A cell \<open>(x, y)\<close> is bit \<open>8 * y + x\<close> of the fingerprint, so the image with the white
  cells \<open>(4, 7), \<dots>, (7, 7)\<close> has the fingerprint \<^verbatim>\<open>000000000000000f\<close> and the black image
  has \<^verbatim>\<open>0000000000000000\<close>. The intensities of these images are the integers 0 and 255,
  and their average is a multiple of 1/64, so no operation on them rounds.
\<close>

definition cellsImage :: "(nat \<times> nat) list \<Rightarrow> file_data" where
  "cellsImage cells =
     \<lparr> fd_mime = ''image/png'', fd_size = 1024,
       fd_resized = Some (\<lambda>x y. if (x, y) \<in> set cells then 0xFFFFFF else 0) \<rparr>"

definition uploadOf :: "string \<Rightarrow> string \<Rightarrow> upload" where
  "uploadOf name tmp_name = \<lparr> up_name = name, up_tmp_name = tmp_name, up_error = 0 \<rparr>"

definition envOf :: "string \<Rightarrow> environment" where
  "envOf uid =
     \<lparr> env_uniqid = uid, env_move_ok = True, env_insert_error = None,
       env_delete_error = None, env_now = 0 \<rparr>"

definition failingEnv :: "string \<Rightarrow> environment" where
  "failingEnv uid = (envOf uid)\<lparr>env_insert_error := Some ''SQLSTATE[HY000]''\<rparr>"

definition failingDeleteEnv :: environment where
  "failingDeleteEnv = (envOf [])\<lparr>env_delete_error := Some ''SQLSTATE[HY000]''\<rparr>"

text \<open>The resample of an image of one colour, and such an image as an uploaded file.\<close>

definition solidPixels :: "int \<Rightarrow> nat \<Rightarrow> nat \<Rightarrow> int" where
  "solidPixels rgb x y = rgb"

definition solidUpload :: "int \<Rightarrow> filesystem" where
  "solidUpload rgb =
     [''/tmp/phpS'' \<mapsto> \<lparr> fd_mime = ''image/png'', fd_size = 1024,
                          fd_resized = Some (solidPixels rgb) \<rparr>]"

definition storedRow :: "nat \<Rightarrow> string \<Rightarrow> string \<Rightarrow> string \<Rightarrow> image_row" where
  "storedRow i name path phash =
     \<lparr> row_id = i, row_filename = name, row_file_path = path, row_phash = phash,
       row_mime_type = ''image/png'', row_file_size = 1024, row_upload_date = 0 \<rparr>"

text \<open>An empty table, and five uploads waiting in the temporary directory.\<close>

definition freshStore :: detector where
  "freshStore =
     \<lparr> uploadDir = ''uploads/'',
       files = [''/tmp/phpA'' \<mapsto> cellsImage [(4, 7), (5, 7), (6, 7), (7, 7)],
                ''/tmp/phpB'' \<mapsto> cellsImage [(2, 7), (3, 7)],
                ''/tmp/phpC'' \<mapsto> cellsImage [(2, 7), (3, 7), (4, 7), (5, 7), (6, 7), (7, 7)],
                ''/tmp/phpD'' \<mapsto> cellsImage [(7, 7)],
                ''/tmp/phpX'' \<mapsto> cellsImage []],
       images = [],
       next_id = 1 \<rparr>"

text \<open>
  The stores that \<^verbatim>\<open>saveImage\<close> itself makes of it, with duplicates not allowed: after the
  uploads A and B, after the upload C alone, and after the upload D alone.
\<close>

definition twoRowStore :: detector where
  "twoRowStore =
     snd (saveImage (snd (saveImage freshStore (envOf ''img_a'') (uploadOf ''a.png'' ''/tmp/phpA'') False))
            (envOf ''img_b'') (uploadOf ''b.png'' ''/tmp/phpB'') False)"

definition nearStore :: detector where
  "nearStore = snd (saveImage freshStore (envOf ''img_c'') (uploadOf ''c.png'' ''/tmp/phpC'') False)"

definition sameStore :: detector where
  "sameStore = snd (saveImage freshStore (envOf ''img_d'') (uploadOf ''d.png'' ''/tmp/phpD'') False)"

section \<open>Properties of hammingDistance\<close>

lemma hexdec_less: "hexdec c < 16"
  by (auto simp add: hexdec_def Let_def)

lemma and_pred_less: "x \<noteq> 0 \<Longrightarrow> x AND (x - 1) < (x::nat)"
proof -
  assume nz: "x \<noteq> 0"
  have "int (x AND (x - 1)) = int x AND int (x - 1)"
    by (simp only: of_nat_and_eq)
  also have "\<dots> \<le> int (x - 1)"
    by (rule AND_upper2) simp
  finally have "x AND (x - 1) \<le> x - 1"
    by (simp only: of_nat_le_iff)
  with nz show ?thesis by simp
qed

lemma countBits_acc: "countBits x d = d + countBits x 0"
proof (induction x arbitrary: d rule: less_induct)
  case (less x)
  show ?case
  proof (cases "x = 0")
    case True
    then show ?thesis by (simp add: countBits.simps)
  next
    case False
    let ?y = "x AND (x - 1)"
    have lt: "?y < x" using False by (rule and_pred_less)
    have a: "countBits x d = countBits ?y (d + 1)"
      using False by (subst countBits.simps) simp
    have b: "countBits x 0 = countBits ?y (0 + 1)"
      using False by (subst countBits.simps) simp
    have "countBits ?y (d + 1) = (d + 1) + countBits ?y 0"
      using less.IH [OF lt] .
    moreover have "countBits ?y (0 + 1) = (0 + 1) + countBits ?y 0"
      using less.IH [OF lt] .
    ultimately show ?thesis using a b by simp
  qed
qed

lemma nat_less_16_cases:
  "z < 16 \<Longrightarrow> z \<in> {0, 1, 2, 3, 4, 5, 6, 7, 8, 9, 10, 11, 12, 13, 14, 15::nat}"
  by simp arith

lemma countBits_digit: "z < 16 \<Longrightarrow> countBits z 0 = length (filter id (digitBits z))"
proof -
  assume "z < 16"
  then have "z \<in> {0, 1, 2, 3, 4, 5, 6, 7, 8, 9, 10, 11, 12, 13, 14, 15::nat}"
    by (rule nat_less_16_cases)
  then show ?thesis
    by (elim insertE emptyE) (simp_all add: countBits.simps digitBits_def bit_0)
qed

lemma xor_less_16: "x < 16 \<Longrightarrow> y < 16 \<Longrightarrow> x XOR y < (16::nat)"
proof -
  assume "x < 16" "y < 16"
  then have "int x XOR int y < 2 ^ 4"
    by (intro XOR_upper) simp_all
  then have "int (x XOR y) < int 16"
    by (simp add: of_nat_xor_eq)
  then show ?thesis by (simp only: of_nat_less_iff)
qed

lemma digitBits_xor: "digitBits (x XOR y) = map (\<lambda>(p, q). p \<noteq> q) (zip (digitBits x) (digitBits y))"
  by (simp add: digitBits_def bit_xor_iff)


lemma charDist: "countBits (hexdec c1 XOR hexdec c2) d =
    d + bitDifferences (digitBits (hexdec c1)) (digitBits (hexdec c2))"
proof -
  have "hexdec c1 XOR hexdec c2 < 16"
    by (rule xor_less_16) (rule hexdec_less)+
  then have "countBits (hexdec c1 XOR hexdec c2) 0 =
      length (filter id (digitBits (hexdec c1 XOR hexdec c2)))"
    by (rule countBits_digit)
  also have "\<dots> = bitDifferences (digitBits (hexdec c1)) (digitBits (hexdec c2))"
    by (simp add: digitBits_xor bitDifferences_def filter_map comp_def case_prod_unfold)
  finally show ?thesis
    using countBits_acc [of "hexdec c1 XOR hexdec c2" d] by simp
qed

lemma hammingLoop_zip:
  "length a = length b \<Longrightarrow>
   foldl (hammingStep a b) d [0..<length a] =
     d + sum_list (map (\<lambda>(c1, c2). bitDifferences (digitBits (hexdec c1)) (digitBits (hexdec c2))) (zip a b))"
proof (induction a arbitrary: b rule: rev_induct)
  case Nil
  then show ?case by simp
next
  case (snoc x a)
  then obtain y b' where b: "b = b' @ [y]" and len: "length a = length b'"
    by (cases b rule: rev_cases) auto
  let ?n = "length a"
  have cong: "foldl (hammingStep (a @ [x]) (b' @ [y])) d [0..<?n] =
              foldl (hammingStep a b') d [0..<?n]"
  proof (rule foldl_cong)
    fix acc i
    assume "i \<in> set [0..<?n]"
    then have "i < length a" "i < length b'" using len by simp_all
    then show "hammingStep (a @ [x]) (b' @ [y]) acc i = hammingStep a b' acc i"
      by (simp add: hammingStep_def nth_append)
  qed simp_all
  have last: "hammingStep (a @ [x]) (b' @ [y]) acc ?n =
              acc + bitDifferences (digitBits (hexdec x)) (digitBits (hexdec y))" for acc
  proof -
    have "(a @ [x]) ! ?n = x" by simp
    moreover have "(b' @ [y]) ! ?n = y" unfolding len by simp
    ultimately show ?thesis
      unfolding hammingStep_def Let_def by (simp only: charDist)
  qed
  have "foldl (hammingStep (a @ [x]) (b' @ [y])) d [0..<length (a @ [x])] =
        hammingStep (a @ [x]) (b' @ [y]) (foldl (hammingStep (a @ [x]) (b' @ [y])) d [0..<?n]) ?n"
    by simp
  also have "\<dots> = foldl (hammingStep a b') d [0..<?n] +
        bitDifferences (digitBits (hexdec x)) (digitBits (hexdec y))"
    by (simp only: cong last)
  also have "foldl (hammingStep a b') d [0..<?n] =
        d + sum_list (map (\<lambda>(c1, c2). bitDifferences (digitBits (hexdec c1)) (digitBits (hexdec c2))) (zip a b'))"
    by (rule snoc.IH [OF len])
  finally show ?case using len by (simp add: b)
qed

lemma bitDifferences_append:
  "length xs = length ys \<Longrightarrow>
   bitDifferences (xs @ us) (ys @ vs) = bitDifferences xs ys + bitDifferences us vs"
  by (simp add: bitDifferences_def)

lemma length_digitBits: "length (digitBits v) = 4"
  by (simp add: digitBits_def)

lemma length_fingerprintBits: "length (fingerprintBits hash) = 4 * length hash"
  by (induction hash) (simp_all add: fingerprintBits_def length_digitBits)

lemma bitDifferences_fingerprintBits:
  "length a = length b \<Longrightarrow>
   bitDifferences (fingerprintBits a) (fingerprintBits b) =
     sum_list (map (\<lambda>(c1, c2). bitDifferences (digitBits (hexdec c1)) (digitBits (hexdec c2))) (zip a b))"
proof (induction a b rule: list_induct2)
  case Nil
  then show ?case by (simp add: fingerprintBits_def bitDifferences_def)
next
  case (Cons x xs y ys)
  have "bitDifferences (fingerprintBits (x # xs)) (fingerprintBits (y # ys)) =
        bitDifferences (digitBits (hexdec x)) (digitBits (hexdec y)) +
        bitDifferences (fingerprintBits xs) (fingerprintBits ys)"
    unfolding fingerprintBits_def
    by (simp add: bitDifferences_append length_digitBits)
  then show ?case using Cons.IH by simp
qed

lemma hammingDistance_bits:
  "length a = length b \<Longrightarrow>
   hammingDistance a b = Inr (bitDifferences (fingerprintBits a) (fingerprintBits b))"
  using hammingLoop_zip [of a b 0]
  by (simp add: hammingDistance_def bitDifferences_fingerprintBits)

lemma bitDifferences_le: "bitDifferences xs ys \<le> length xs"
  unfolding bitDifferences_def
  by (rule order_trans [OF length_filter_le]) simp

lemma bitDifferences_same: "bitDifferences xs xs = 0"
  by (induction xs) (simp_all add: bitDifferences_def)

lemma bitDifferences_sym: "bitDifferences xs ys = bitDifferences ys xs"
proof -
  have "filter (\<lambda>(p, q). p \<noteq> q) (zip xs ys) =
        map (\<lambda>(p, q). (q, p)) (filter (\<lambda>(p, q). p \<noteq> q) (zip ys xs))"
    by (induction xs arbitrary: ys) (auto simp add: zip_Cons1 zip_Cons split: list.splits)
  then show ?thesis by (simp add: bitDifferences_def)
qed


text \<open>
  C5. Two fingerprints of the same length have a distance, it lies between 0 and the number
  \<open>L\<close> of bits of a fingerprint (four times the number of stored digits), it is the same in
  both directions, and the distance of a fingerprint to itself is 0.
\<close>

theorem hammingDistance_bounds_symmetric:
  "length a = length b \<Longrightarrow>
   (\<exists>d. hammingDistance a b = Inr d \<and> 0 \<le> d \<and> d \<le> length (fingerprintBits a) \<and>
        hammingDistance b a = Inr d) \<and>
   hammingDistance a a = Inr 0"
proof -
  assume len: "length a = length b"
  let ?d = "bitDifferences (fingerprintBits a) (fingerprintBits b)"
  have ab: "hammingDistance a b = Inr ?d"
    using len by (rule hammingDistance_bits)
  have "hammingDistance b a = Inr (bitDifferences (fingerprintBits b) (fingerprintBits a))"
    using len [symmetric] by (rule hammingDistance_bits)
  then have ba: "hammingDistance b a = Inr ?d"
    by (simp only: bitDifferences_sym [of "fingerprintBits b"])
  have bound: "?d \<le> length (fingerprintBits a)"
    by (rule bitDifferences_le)
  have self: "hammingDistance a a = Inr 0"
    using hammingDistance_bits [of a a] by (simp add: bitDifferences_same)
  from ab ba bound self show ?thesis by blast
qed

theorem hammingDistance_bounds_symmetric_witness:
  "length ''ff00'' = length ''0f0f'' \<and>
   (\<exists>d. hammingDistance ''ff00'' ''0f0f'' = Inr d \<and> d \<le> 16 \<and>
        hammingDistance ''0f0f'' ''ff00'' = Inr d) \<and>
   hammingDistance ''ff00'' ''ff00'' = Inr 0"
  using hammingDistance_bounds_symmetric [of "''ff00''" "''0f0f''"]
  by (simp add: length_fingerprintBits)

text \<open>
  C6. \<^verbatim>\<open>hammingDistance\<close> throws exactly when the two strings differ in length, and the
  exception is the length mismatch; on strings of the same length it returns the number of
  bit positions at which the two fingerprints differ.
\<close>

theorem hammingDistance_error_iff_count:
  "(isl (hammingDistance a b) \<longleftrightarrow> length a \<noteq> length b) \<and>
   (length a \<noteq> length b \<longrightarrow> hammingDistance a b = Inl LengthMismatch) \<and>
   (length a = length b \<longrightarrow>
      hammingDistance a b = Inr (bitDifferences (fingerprintBits a) (fingerprintBits b)))"
proof (cases "length a = length b")
  case True
  then show ?thesis by (simp add: hammingDistance_bits)
next
  case False
  then show ?thesis by (simp add: hammingDistance_def)
qed

theorem hammingDistance_error_iff_count_witness:
  "hammingDistance ''f0'' ''0fa'' = Inl LengthMismatch \<and>
   hammingDistance ''f0'' ''3f'' =
     Inr (bitDifferences [True, True, True, True, False, False, False, False]
                         [False, False, True, True, True, True, True, True])"
proof -
  have d: "length ''f0'' \<noteq> length ''0fa''" by simp
  have e: "length ''f0'' = length ''3f''" by simp
  have bf: "fingerprintBits ''f0'' = [True, True, True, True, False, False, False, False]"
    by (simp add: fingerprintBits_def digitBits_def hexdec_def bit_0)
  have b3: "fingerprintBits ''3f'' = [False, False, True, True, True, True, True, True]"
    by (simp add: fingerprintBits_def digitBits_def hexdec_def bit_0)
  from hammingDistance_error_iff_count [of "''f0''" "''0fa''"] d
  have "hammingDistance ''f0'' ''0fa'' = Inl LengthMismatch" by blast
  moreover from hammingDistance_error_iff_count [of "''f0''" "''3f''"] e
  have "hammingDistance ''f0'' ''3f'' = Inr (bitDifferences (fingerprintBits ''f0'') (fingerprintBits ''3f''))"
    by blast
  ultimately show ?thesis by (simp only: bf b3)
qed

section \<open>The hexadecimal encoding\<close>

lemma hexLoop_acc: "hexLoop hash i acc = acc @ hexLoop hash i []"
proof (induction "length hash - i" arbitrary: i acc rule: less_induct)
  case less
  show ?case
  proof (cases "i < length hash")
    case False
    then show ?thesis by (simp add: hexLoop.simps)
  next
    case True
    let ?x = "dechex (bindec (substr hash i 4))"
    have lt: "length hash - (i + 4) < length hash - i" using True by simp
    have "hexLoop hash i acc = hexLoop hash (i + 4) (acc @ ?x)"
      using True by (subst hexLoop.simps) simp
    also have "\<dots> = (acc @ ?x) @ hexLoop hash (i + 4) []"
      by (rule less.hyps [OF lt])
    finally have a: "hexLoop hash i acc = acc @ ?x @ hexLoop hash (i + 4) []" by simp
    have "hexLoop hash i [] = hexLoop hash (i + 4) ([] @ ?x)"
      using True by (subst hexLoop.simps) simp
    also have "\<dots> = ([] @ ?x) @ hexLoop hash (i + 4) []"
      by (rule less.hyps [OF lt])
    finally have b: "hexLoop hash i [] = ?x @ hexLoop hash (i + 4) []" by simp
    from a b show ?thesis by simp
  qed
qed

lemma hexLoop_unfold:
  "i < length hash \<Longrightarrow>
   hexLoop hash i [] = dechex (bindec (substr hash i 4)) @ hexLoop hash (i + 4) []"
  by (subst hexLoop.simps, subst hexLoop_acc) simp

lemma hexLoop_drop: "hexLoop (drop k hash) i [] = hexLoop hash (i + k) []"
proof (induction "length hash - (i + k)" arbitrary: i rule: less_induct)
  case less
  show ?case
  proof (cases "i + k < length hash")
    case False
    then have "\<not> i < length (drop k hash)" by simp
    then have "hexLoop (drop k hash) i [] = []" by (subst hexLoop.simps) simp
    moreover have "hexLoop hash (i + k) [] = []" using False by (subst hexLoop.simps) simp
    ultimately show ?thesis by simp
  next
    case True
    have lt: "length hash - (i + 4 + k) < length hash - (i + k)" using True by simp
    have s: "substr (drop k hash) i 4 = substr hash (i + k) 4"
      by (simp add: substr_def)
    have "hexLoop (drop k hash) i [] =
          dechex (bindec (substr (drop k hash) i 4)) @ hexLoop (drop k hash) (i + 4) []"
      using True by (intro hexLoop_unfold) simp
    also have "hexLoop (drop k hash) (i + 4) [] = hexLoop hash (i + 4 + k) []"
      by (rule less.hyps [OF lt])
    finally have "hexLoop (drop k hash) i [] =
          dechex (bindec (substr hash (i + k) 4)) @ hexLoop hash (i + k + 4) []"
      by (simp add: s ac_simps)
    also have "\<dots> = hexLoop hash (i + k) []"
      using True by (rule hexLoop_unfold [symmetric])
    finally show ?thesis .
  qed
qed

lemma binToHex_Nil: "binToHex [] = []"
  by (simp add: binToHex_def hexLoop.simps)

lemma binToHex_chunk:
  "binToHex (a # b # c # d # rest) = dechex (bindec [a, b, c, d]) @ binToHex rest"
proof -
  let ?h = "a # b # c # d # rest"
  have "hexLoop ?h 0 [] = dechex (bindec (substr ?h 0 4)) @ hexLoop ?h (0 + 4) []"
    by (rule hexLoop_unfold) simp
  moreover have "hexLoop ?h (0 + 4) [] = hexLoop (drop 4 ?h) 0 []"
    by (rule hexLoop_drop [symmetric])
  ultimately show ?thesis by (simp add: binToHex_def substr_def)
qed

lemma digit_roundtrip:
  "isBit a \<Longrightarrow> isBit b \<Longrightarrow> isBit c \<Longrightarrow> isBit d \<Longrightarrow>
   dechex (bindec [a, b, c, d]) = [hexDigit (bindec [a, b, c, d])] \<and>
   digitBits (hexdec (hexDigit (bindec [a, b, c, d]))) =
     [a = CHR ''1'', b = CHR ''1'', c = CHR ''1'', d = CHR ''1'']"
  unfolding isBit_def
  by (elim disjE) (simp_all add: bindec_def dechex.simps hexDigit_def hexdec_def digitBits_def bit_0)


lemma length_4_Suc:
  "length hash = 4 * Suc n \<Longrightarrow>
   \<exists>a b c d rest. hash = a # b # c # d # rest \<and> length rest = 4 * n"
proof -
  assume "length hash = 4 * Suc n"
  then have "length hash = Suc (Suc (Suc (Suc (4 * n))))" by simp
  then show ?thesis by (auto simp add: length_Suc_conv)
qed

lemma binToHex_bits:
  "length hash = 4 * n \<Longrightarrow> \<forall>c \<in> set hash. isBit c \<Longrightarrow>
   fingerprintBits (binToHex hash) = map (\<lambda>c. c = CHR ''1'') hash \<and>
   length (binToHex hash) = n"
proof (induction n arbitrary: hash)
  case 0
  then show ?case by (simp add: binToHex_Nil fingerprintBits_def)
next
  case (Suc n)
  from length_4_Suc [OF Suc.prems(1)]
  obtain a b c d rest where h: "hash = a # b # c # d # rest" and len: "length rest = 4 * n"
    by blast
  have bits: "isBit a" "isBit b" "isBit c" "isBit d" and rest: "\<forall>c \<in> set rest. isBit c"
    using Suc.prems(2) by (simp_all add: h)
  note dr = digit_roundtrip [OF bits]
  have ih: "fingerprintBits (binToHex rest) = map (\<lambda>c. c = CHR ''1'') rest"
           "length (binToHex rest) = n"
    using Suc.IH [OF len rest] by simp_all
  have step: "binToHex hash = hexDigit (bindec [a, b, c, d]) # binToHex rest"
    by (simp add: h binToHex_chunk dr)
  have "fingerprintBits (binToHex hash) =
        digitBits (hexdec (hexDigit (bindec [a, b, c, d]))) @ fingerprintBits (binToHex rest)"
    by (simp add: step fingerprintBits_def)
  also have "\<dots> = map (\<lambda>c. c = CHR ''1'') (a # b # c # d # rest)"
    by (simp add: dr ih)
  finally have f: "fingerprintBits (binToHex hash) = map (\<lambda>c. c = CHR ''1'') hash"
    by (simp only: h)
  have l: "length (binToHex hash) = Suc n"
    by (simp add: step ih)
  from f l show ?case by (rule conjI)
qed

lemma bitDifferences_map_bits:
  "length x = length y \<Longrightarrow> \<forall>c \<in> set x. isBit c \<Longrightarrow> \<forall>c \<in> set y. isBit c \<Longrightarrow>
   bitDifferences (map (\<lambda>c. c = CHR ''1'') x) (map (\<lambda>c. c = CHR ''1'') y) = bitDifferences x y"
proof (induction x y rule: list_induct2)
  case Nil
  then show ?case by (simp add: bitDifferences_def)
next
  case (Cons a x b y)
  then show ?case by (auto simp add: bitDifferences_def isBit_def)
qed

lemma hammingDistance_binToHex:
  assumes "length x = 4 * n" "length y = 4 * n"
    and "\<forall>c \<in> set x. isBit c" "\<forall>c \<in> set y. isBit c"
  shows "hammingDistance (binToHex x) (binToHex y) = Inr (bitDifferences x y)"
proof -
  have bx: "fingerprintBits (binToHex x) = map (\<lambda>c. c = CHR ''1'') x" "length (binToHex x) = n"
    using binToHex_bits [OF assms(1) assms(3)] by simp_all
  have by': "fingerprintBits (binToHex y) = map (\<lambda>c. c = CHR ''1'') y" "length (binToHex y) = n"
    using binToHex_bits [OF assms(2) assms(4)] by simp_all
  have "hammingDistance (binToHex x) (binToHex y) =
        Inr (bitDifferences (fingerprintBits (binToHex x)) (fingerprintBits (binToHex y)))"
    by (rule hammingDistance_bits) (simp add: bx by')
  also have "\<dots> = Inr (bitDifferences x y)"
    using assms by (simp add: bx by' bitDifferences_map_bits)
  finally show ?thesis .
qed

text \<open>
  C9. For two fingerprints of \<open>hashSize\<^sup>2 = 64\<close> bits, written as \<^verbatim>\<open>generateHash\<close> writes
  them (a string of the characters 0 and 1), the hexadecimal encodings have 16 digits and
  \<^verbatim>\<open>hammingDistance\<close> of the encodings is the number of positions at which the two bit
  strings differ.
\<close>
theorem hex_distance_refines_bit_distance:
  "length x = hashSize * hashSize \<Longrightarrow> length y = hashSize * hashSize \<Longrightarrow>
   \<forall>c \<in> set x. isBit c \<Longrightarrow> \<forall>c \<in> set y. isBit c \<Longrightarrow>
   length (binToHex x) = 16 \<and> length (binToHex y) = 16 \<and>
   hammingDistance (binToHex x) (binToHex y) = Inr (bitDifferences x y)"
proof -
  assume a: "length x = hashSize * hashSize" "length y = hashSize * hashSize"
    and b: "\<forall>c \<in> set x. isBit c" "\<forall>c \<in> set y. isBit c"
  have lx: "length x = 4 * 16" and ly: "length y = 4 * 16"
    using a by (simp_all add: hashSize_def)
  show ?thesis
    using binToHex_bits [OF lx b(1)] binToHex_bits [OF ly b(2)]
      hammingDistance_binToHex [OF lx ly b]
    by simp
qed


theorem hex_distance_refines_bit_distance_witness:
  "hammingDistance (binToHex (replicate 60 CHR ''0'' @ ''1010''))
                   (binToHex (replicate 60 CHR ''1'' @ ''0110'')) = Inr 62"
proof -
  let ?x = "replicate 60 CHR ''0'' @ ''1010''"
  let ?y = "replicate 60 CHR ''1'' @ ''0110''"
  have l: "length ?x = hashSize * hashSize" "length ?y = hashSize * hashSize"
    by (simp_all add: hashSize_def)
  have b: "\<forall>c \<in> set ?x. isBit c" "\<forall>c \<in> set ?y. isBit c"
    by (simp_all add: isBit_def)
  have d: "bitDifferences ?x ?y = 62"
    by (simp add: bitDifferences_def zip_replicate filter_replicate)
  from hex_distance_refines_bit_distance [OF l b] d show ?thesis by simp
qed


section \<open>The fingerprint of an image\<close>

text \<open>
  C8 says that the fingerprint has 64 bits and that a bit is 1 exactly when the intensity
  of its cell, the plain average of the three channels, is strictly greater than the mean
  of the 64 intensities. The class returns 16 digits, 64 bits, for every image (lemma
  \<open>generateHash_length\<close> below), but the bits are not always these. In the image of the
  single colour \<^verbatim>\<open>rgb(0, 0, 1)\<close> every cell has the intensity 1/3, which is also the mean,
  so no cell is above the mean and the fingerprint of the claim is \<^verbatim>\<open>0000000000000000\<close>.
  The class computes the intensity as the double \<open>6004799503160661 / 2 ^ 54\<close> and adds
  the 64 doubles from left to right, rounding at each step; the average it gets is
  \<open>6004799503160659 / 2 ^ 54\<close>, below the intensity of every cell, and it returns
  \<^verbatim>\<open>ffffffffffffffff\<close>.
\<close>

theorem generateHash_solid_tie:
  "generateHash (solidUpload 1) ''/tmp/phpS'' = Inr ''ffffffffffffffff'' \<and>
   binToHex (averageHash (solidPixels 1)) = ''0000000000000000'' \<and>
   cellIntensities (solidPixels 1) = replicate 64 (1 / 3) \<and>
   meanIntensity (solidPixels 1) = 1 / 3 \<and>
   grayscale 1 = Double 6004799503160661 (- 54) \<and>
   php_div (array_sum (pixelValues (solidPixels 1))) (Long 64) = Double 6004799503160659 (- 54)"
  by code_simp

text \<open>
  The black image and the image of the colour \<^verbatim>\<open>rgb(0, 0, 3)\<close>, whose intensities are the
  integers 0 and 1, get the fingerprint of the claim, so the fingerprint of \<^verbatim>\<open>rgb(0, 0, 1)\<close>
  differs from those of its two neighbours in all 64 bits. Some values of the arithmetic, for
  comparison with the doubles of a machine: 1/3 is \<^verbatim>\<open>0x3FD5555555555555\<close>, and 1020/64 is
  exact.
\<close>

lemma generateHash_solid_neighbours:
  "generateHash (solidUpload 0) ''/tmp/phpS'' = Inr ''0000000000000000''"
  "generateHash (solidUpload 3) ''/tmp/phpS'' = Inr ''0000000000000000''"
  "hammingDistance ''ffffffffffffffff'' ''0000000000000000'' = Inr 64"
  by code_simp+

lemma double_values:
  "php_div (Long 1) (Long 3) = Double 6004799503160661 (- 54)"
  "php_div (Long 765) (Long 3) = Long 255"
  "valueOf (php_div (Long 1020) (Long 64)) = 255 / 16"
  "toDouble (Long 255) = (8972014882652160, - 45)"
  "php_greater (Long 255) (php_div (Long 1020) (Long 64))"
  by code_simp+

section \<open>Invariants of the table\<close>

text \<open>
  Every fingerprint \<^verbatim>\<open>generateHash\<close> returns has 16 hexadecimal digits, whatever the
  image, so a table that \<^verbatim>\<open>saveImage\<close> alone has filled holds fingerprints of one length
  and \<^verbatim>\<open>hammingDistance\<close> does not throw during a scan.
\<close>

lemma length_pixelValues: "length (pixelValues resized) = hashSize * hashSize"
  by (simp add: pixelValues_def length_concat comp_def sum_list_triv)

lemma binaryHash_bits:
  "length (binaryHash pixels) = length pixels \<and> (\<forall>c \<in> set (binaryHash pixels). isBit c)"
  by (auto simp add: binaryHash_def Let_def isBit_def)

lemma generateHash_length: "generateHash fs imagePath = Inr h \<Longrightarrow> length h = 16"
proof -
  assume g: "generateHash fs imagePath = Inr h"
  then obtain resized where h: "h = binToHex (binaryHash (pixelValues resized))"
    by (auto simp add: generateHash_def split: option.splits)
  have "length (binaryHash (pixelValues resized)) = 4 * 16"
    using binaryHash_bits [of "pixelValues resized"]
    by (simp add: length_pixelValues hashSize_def)
  then show ?thesis
    using binToHex_bits [of "binaryHash (pixelValues resized)" 16]
      binaryHash_bits [of "pixelValues resized"]
    by (simp add: h)
qed

text \<open>
  \<open>wellFormed\<close> holds of the empty table and is kept by \<^verbatim>\<open>saveImage\<close> and
  \<^verbatim>\<open>deleteImage\<close>, whatever they return.
\<close>

lemma wellFormed_freshStore: "wellFormed freshStore"
  by (simp add: wellFormed_def freshStore_def)

lemma wellFormed_storeUpload:
  assumes "wellFormed st"
  shows "wellFormed (snd (storeUpload st env file mimeType))"
  using assms
  by (auto simp add: wellFormed_def storeUpload_def move_uploaded_file_def insertRow_def
      unlink_def Let_def generateHash_length split: option.splits sum.splits if_splits)

lemma wellFormed_saveImage:
  assumes "wellFormed st"
  shows "wellFormed (snd (saveImage st env file allowDuplicates))"
proof -
  have "snd (saveImage st env file allowDuplicates) = st \<or>
      (\<exists>mimeType. snd (saveImage st env file allowDuplicates) =
         snd (storeUpload st env file mimeType))"
    by (auto simp add: saveImage_def case_prod_unfold Let_def split: option.splits sum.splits)
  then show ?thesis
    using assms wellFormed_storeUpload by auto
qed

lemma wellFormed_deleteImage:
  assumes "wellFormed st"
  shows "wellFormed (snd (deleteImage st env ident))"
  using assms
  by (auto simp add: wellFormed_def deleteImage_def unlink_def Let_def distinct_map_filter
      split: option.splits)

lemma wellFormed_examples: "wellFormed twoRowStore" "wellFormed nearStore" "wellFormed sameStore"
  by (simp_all add: twoRowStore_def nearStore_def sameStore_def wellFormed_saveImage
      wellFormed_freshStore)

section \<open>findDuplicate\<close>

lemma scanRows_step:
  "length (row_phash row) = length f \<Longrightarrow>
   scanRows f t (row # rest) =
     (if int (storedDistance f row) \<le> t then Inr (Some (duplicateInfo row (storedDistance f row)))
      else scanRows f t rest)"
  by (simp add: hammingDistance_bits storedDistance_def)

lemma scanRows_None_iff:
  "\<forall>r \<in> set rows. length (row_phash r) = length f \<Longrightarrow>
   scanRows f t rows = Inr None \<longleftrightarrow> (\<forall>r \<in> set rows. t < int (storedDistance f r))"
proof (induction rows)
  case Nil
  then show ?case by simp
next
  case (Cons row rest)
  then have "length (row_phash row) = length f" by simp
  then show ?case using Cons by (auto simp add: scanRows_step simp del: scanRows.simps)
qed

lemma scanRows_first:
  "\<forall>r \<in> set rows. length (row_phash r) = length f \<Longrightarrow>
   scanRows f t rows \<noteq> Inr None \<Longrightarrow>
   \<exists>pre r post. rows = pre @ r # post \<and> (\<forall>q \<in> set pre. t < int (storedDistance f q)) \<and>
      int (storedDistance f r) \<le> t \<and>
      scanRows f t rows = Inr (Some (duplicateInfo r (storedDistance f r)))"
proof (induction rows)
  case Nil
  then show ?case by simp
next
  case (Cons row rest)
  then have len: "length (row_phash row) = length f" by simp
  show ?case
  proof (cases "int (storedDistance f row) \<le> t")
    case True
    then have "row # rest = [] @ row # rest \<and> (\<forall>q \<in> set []. t < int (storedDistance f q)) \<and>
      int (storedDistance f row) \<le> t \<and>
      scanRows f t (row # rest) = Inr (Some (duplicateInfo row (storedDistance f row)))"
      by (simp add: scanRows_step [OF len] del: scanRows.simps)
    then show ?thesis by blast
  next
    case False
    then have eq: "scanRows f t (row # rest) = scanRows f t rest"
      by (simp add: scanRows_step [OF len] del: scanRows.simps)
    with Cons obtain pre r post where
      "rest = pre @ r # post" "\<forall>q \<in> set pre. t < int (storedDistance f q)"
      "int (storedDistance f r) \<le> t"
      "scanRows f t rest = Inr (Some (duplicateInfo r (storedDistance f r)))"
      by auto
    with False eq have "row # rest = (row # pre) @ r # post \<and>
      (\<forall>q \<in> set (row # pre). t < int (storedDistance f q)) \<and>
      int (storedDistance f r) \<le> t \<and>
      scanRows f t (row # rest) = Inr (Some (duplicateInfo r (storedDistance f r)))"
      by simp
    then show ?thesis by blast
  qed
qed

lemma scanRows_mono:
  "scanRows f t1 rows = Inr (Some m) \<Longrightarrow> t1 \<le> t2 \<Longrightarrow> \<exists>m'. scanRows f t2 rows = Inr (Some m')"
proof (induction rows)
  case Nil
  then show ?case by simp
next
  case (Cons row rest)
  then show ?case
    by (cases "hammingDistance f (row_phash row)") (auto split: if_splits)
qed

lemma scanRows_append_None:
  "scanRows f t rows = Inr None \<Longrightarrow> scanRows f t (rows @ others) = scanRows f t others"
proof (induction rows)
  case Nil
  then show ?case by simp
next
  case (Cons row rest)
  then show ?case
    by (cases "hammingDistance f (row_phash row)") (auto split: if_splits)
qed

lemma scanRows_None_antimono:
  "scanRows f t2 rows = Inr None \<Longrightarrow> t1 \<le> t2 \<Longrightarrow> scanRows f t1 rows = Inr None"
proof (induction rows)
  case Nil
  then show ?case by simp
next
  case (Cons row rest)
  then show ?case
    by (cases "hammingDistance f (row_phash row)") (auto split: if_splits)
qed

lemma twoRowStore_images:
  "images twoRowStore =
     [storedRow 1 ''a.png'' ''img_a.png'' ''000000000000000f'',
      storedRow 2 ''b.png'' ''img_b.png'' ''0000000000000030'']"
  by code_simp

lemma twoRowStore_candidate:
  "generateHash (files twoRowStore) ''/tmp/phpX'' = Inr ''0000000000000000''"
  by code_simp

lemma twoRowStore_distances:
  "storedDistance ''0000000000000000'' (storedRow i n p ''000000000000000f'') = 4"
  "storedDistance ''0000000000000000'' (storedRow j m q ''0000000000000030'') = 2"
proof -
  have "hammingDistance ''0000000000000000'' ''000000000000000f'' = Inr 4"
    by code_simp
  then show "storedDistance ''0000000000000000'' (storedRow i n p ''000000000000000f'') = 4"
    using hammingDistance_bits [of "''0000000000000000''" "''000000000000000f''"]
    by (simp add: storedDistance_def storedRow_def)
  have "hammingDistance ''0000000000000000'' ''0000000000000030'' = Inr 2"
    by code_simp
  then show "storedDistance ''0000000000000000'' (storedRow j m q ''0000000000000030'') = 2"
    using hammingDistance_bits [of "''0000000000000000''" "''0000000000000030''"]
    by (simp add: storedDistance_def storedRow_def)
qed

text \<open>
  C1, as the class has it. When every stored fingerprint has the length of the candidate's
  fingerprint \<open>f\<close>, \<^verbatim>\<open>findDuplicate\<close> returns null exactly when no stored fingerprint is within
  the threshold of \<open>f\<close> (so also on the empty table); otherwise it returns the first record,
  in the order of the scan, whose distance is within the threshold, with that distance. The
  loop returns at the first such record and does not look for the least distance.
\<close>

theorem findDuplicate_first_match:
  assumes "generateHash (files st) imagePath = Inr f"
    and "\<forall>r \<in> set (images st). length (row_phash r) = length f"
  shows "(findDuplicate st imagePath t = Inr None \<longleftrightarrow>
            (\<forall>r \<in> set (images st). t < int (storedDistance f r))) \<and>
         (findDuplicate st imagePath t \<noteq> Inr None \<longrightarrow>
            (\<exists>pre r post. images st = pre @ r # post \<and>
               (\<forall>q \<in> set pre. t < int (storedDistance f q)) \<and>
               int (storedDistance f r) \<le> t \<and>
               findDuplicate st imagePath t = Inr (Some (duplicateInfo r (storedDistance f r)))))"
  using assms scanRows_None_iff [of "images st" f t] scanRows_first [of "images st" f t]
  by (simp add: findDuplicate_def)

theorem findDuplicate_first_match_witness:
  "findDuplicate twoRowStore ''/tmp/phpX'' 5 \<noteq> Inr None \<and>
   findDuplicate twoRowStore ''/tmp/phpX'' 1 = Inr None"
proof -
  note g = twoRowStore_candidate
  have w: "\<forall>r \<in> set (images twoRowStore). length (row_phash r) = length ''0000000000000000''"
    by (simp add: twoRowStore_images storedRow_def)
  have d: "\<forall>r \<in> set (images twoRowStore). 1 < int (storedDistance ''0000000000000000'' r)"
    by (simp add: twoRowStore_images twoRowStore_distances)
  have e: "\<not> (\<forall>r \<in> set (images twoRowStore). 5 < int (storedDistance ''0000000000000000'' r))"
    by (simp add: twoRowStore_images twoRowStore_distances)
  from findDuplicate_first_match [OF g w, of 1] findDuplicate_first_match [OF g w, of 5] d e
  show ?thesis by blast
qed

text \<open>
  The claim C1 itself fails: with the records A (distance 4) and B (distance 2) in the
  table and the threshold 5, the black image is reported as a duplicate of A at distance 4,
  which is not the least distance to a stored fingerprint.
\<close>

theorem findDuplicate_not_minimum_counterexample:
  "findDuplicate twoRowStore ''/tmp/phpX'' 5 =
     Inr (Some (duplicateInfo (storedRow 1 ''a.png'' ''img_a.png'' ''000000000000000f'') 4)) \<and>
   m_hamming_distance (duplicateInfo (storedRow 1 ''a.png'' ''img_a.png'' ''000000000000000f'') 4) = 4 \<and>
   generateHash (files twoRowStore) ''/tmp/phpX'' = Inr ''0000000000000000'' \<and>
   storedRow 2 ''b.png'' ''img_b.png'' ''0000000000000030'' \<in> set (images twoRowStore) \<and>
   hammingDistance ''0000000000000000''
     (row_phash (storedRow 2 ''b.png'' ''img_b.png'' ''0000000000000030'')) = Inr 2"
  by code_simp

text \<open>
  C7. If \<^verbatim>\<open>findDuplicate\<close> reports a duplicate at the threshold \<open>t1\<close>, it reports one (maybe
  another record) at every larger threshold.
\<close>

theorem findDuplicate_threshold_monotone:
  "findDuplicate st imagePath t1 = Inr (Some m) \<Longrightarrow> t1 < t2 \<Longrightarrow>
   \<exists>m'. findDuplicate st imagePath t2 = Inr (Some m')"
proof -
  assume a: "findDuplicate st imagePath t1 = Inr (Some m)" and lt: "t1 < t2"
  from a obtain f where g: "generateHash (files st) imagePath = Inr f"
    and s: "scanRows f t1 (images st) = Inr (Some m)"
    by (cases "generateHash (files st) imagePath") (simp_all add: findDuplicate_def)
  from lt have "t1 \<le> t2" by simp
  with s obtain m' where "scanRows f t2 (images st) = Inr (Some m')"
    using scanRows_mono by blast
  with g show ?thesis by (simp add: findDuplicate_def)
qed

theorem findDuplicate_threshold_monotone_witness:
  "findDuplicate twoRowStore ''/tmp/phpX'' 2 =
     Inr (Some (duplicateInfo (storedRow 2 ''b.png'' ''img_b.png'' ''0000000000000030'') 2)) \<and>
   (2::int) < 5 \<and>
   (\<exists>m'. findDuplicate twoRowStore ''/tmp/phpX'' 5 = Inr (Some m'))"
proof -
  have a: "findDuplicate twoRowStore ''/tmp/phpX'' 2 =
     Inr (Some (duplicateInfo (storedRow 2 ''b.png'' ''img_b.png'' ''0000000000000030'') 2))"
    by code_simp
  have b: "(2::int) < 5" by simp
  from a b findDuplicate_threshold_monotone [OF a b] show ?thesis by blast
qed

section \<open>saveImage\<close>

text \<open>
  C3. When duplicates are not allowed and \<^verbatim>\<open>findDuplicate\<close> (with the threshold 5 that
  \<^verbatim>\<open>saveImage\<close> passes) reports a match for the uploaded file, \<^verbatim>\<open>saveImage\<close> leaves the files
  and the table as they were; for an upload that has passed the two checks that come first
  (no upload error, an allowed MIME type) the result is the duplicate failure, carrying
  that match.
\<close>

theorem saveImage_duplicate_rejected:
  "\<not> allowDuplicates \<Longrightarrow> findDuplicate st (up_tmp_name file) 5 = Inr (Some m) \<Longrightarrow>
   snd (saveImage st env file allowDuplicates) = st \<and>
   (up_error file = UPLOAD_ERR_OK \<and>
    (\<exists>mimeType \<in> set allowedTypes. finfo_file (files st) (up_tmp_name file) = Some mimeType) \<longrightarrow>
      saveImage st env file allowDuplicates = (Inr (DuplicateDetected m), st))"
proof (rule conjI)
  assume nd: "\<not> allowDuplicates"
    and dup: "findDuplicate st (up_tmp_name file) 5 = Inr (Some m)"
  show "snd (saveImage st env file allowDuplicates) = st"
    using nd dup by (simp add: saveImage_def split: option.splits)
  show "up_error file = UPLOAD_ERR_OK \<and>
    (\<exists>mimeType \<in> set allowedTypes. finfo_file (files st) (up_tmp_name file) = Some mimeType) \<longrightarrow>
      saveImage st env file allowDuplicates = (Inr (DuplicateDetected m), st)"
  proof
    assume "up_error file = UPLOAD_ERR_OK \<and>
      (\<exists>mimeType \<in> set allowedTypes. finfo_file (files st) (up_tmp_name file) = Some mimeType)"
    then obtain mimeType where ok: "up_error file = UPLOAD_ERR_OK"
      and mime: "finfo_file (files st) (up_tmp_name file) = Some mimeType"
        "mimeType \<in> set allowedTypes"
      by blast
    from ok mime nd dup show "saveImage st env file allowDuplicates = (Inr (DuplicateDetected m), st)"
      by (simp add: saveImage_def)
  qed
qed

theorem saveImage_duplicate_rejected_witness:
  "saveImage sameStore (envOf ''img_x'') (uploadOf ''x.png'' ''/tmp/phpX'') False =
     (Inr (DuplicateDetected
        (duplicateInfo (storedRow 1 ''d.png'' ''img_d.png'' ''0000000000000001'') 1)), sameStore)"
proof -
  let ?file = "uploadOf ''x.png'' ''/tmp/phpX''"
  have a: "\<not> False" by simp
  have b: "findDuplicate sameStore (up_tmp_name ?file) 5 =
      Inr (Some (duplicateInfo (storedRow 1 ''d.png'' ''img_d.png'' ''0000000000000001'') 1))"
    by code_simp
  have c: "up_error ?file = UPLOAD_ERR_OK"
    by (simp add: uploadOf_def UPLOAD_ERR_OK_def)
  have "finfo_file (files sameStore) (up_tmp_name ?file) = Some ''image/png''"
    by code_simp
  then have d: "\<exists>mimeType \<in> set allowedTypes.
      finfo_file (files sameStore) (up_tmp_name ?file) = Some mimeType"
    by (simp add: allowedTypes_def)
  from saveImage_duplicate_rejected [OF a b, of "envOf ''img_x''"] c d show ?thesis
    by (simp add: prod_eq_iff)
qed

lemma generateHash_same_content:
  "fs path = Some content \<Longrightarrow> fs' path' = Some content \<Longrightarrow>
   generateHash fs' path' = Inr h \<Longrightarrow> generateHash fs path = Inr h"
  by (simp add: generateHash_def loadImage_def split: option.splits)

lemma storeUpload_Saved:
  assumes "storeUpload st env file mimeType = (Saved i filename orig hash, st')"
  shows "\<exists>content row.
      files st (up_tmp_name file) = Some content \<and>
      files st' (uploadDir st @ filename) = Some content \<and>
      generateHash (files st') (uploadDir st @ filename) = Inr hash \<and>
      uploadDir st' = uploadDir st \<and>
      images st' = images st @ [row] \<and> row_id row = i \<and> row_phash row = hash"
  using assms
  by (auto simp add: storeUpload_def move_uploaded_file_def insertRow_def Let_def unlink_def
      split: option.splits sum.splits if_splits)

lemma saveImage_Saved:
  assumes "saveImage st env file False = (Inr (Saved i filename orig hash), st')"
  shows "findDuplicate st (up_tmp_name file) 5 = Inr None \<and>
         (\<exists>mimeType. storeUpload st env file mimeType = (Saved i filename orig hash, st'))"
  using assms
  by (auto simp add: saveImage_def split: option.splits sum.splits if_splits prod.splits)

text \<open>
  C2, as the class has it. After \<^verbatim>\<open>saveImage\<close> has stored an upload with duplicates not
  allowed, \<^verbatim>\<open>findDuplicate\<close> on the stored file with a threshold from 0 to 5 (the threshold
  of the check in \<^verbatim>\<open>saveImage\<close>) returns the new record itself, at distance 0.
\<close>

theorem saveImage_then_findDuplicate_self:
  assumes saved: "saveImage st env file False = (Inr (Saved i filename orig hash), st')"
    and t: "0 \<le> t" "t \<le> 5"
  shows "generateHash (files st') (uploadDir st' @ filename) = Inr hash \<and>
         (\<exists>m. findDuplicate st' (uploadDir st' @ filename) t = Inr (Some m) \<and>
              m_hamming_distance m = 0 \<and> m_id m = i)"
proof -
  from saveImage_Saved [OF saved] obtain mimeType where
    nodup: "findDuplicate st (up_tmp_name file) 5 = Inr None" and
    store: "storeUpload st env file mimeType = (Saved i filename orig hash, st')"
    by blast
  from storeUpload_Saved [OF store] obtain content row where
    tmp: "files st (up_tmp_name file) = Some content" and
    new: "files st' (uploadDir st @ filename) = Some content" and
    gen: "generateHash (files st') (uploadDir st @ filename) = Inr hash" and
    dir: "uploadDir st' = uploadDir st" and
    rows: "images st' = images st @ [row]" and
    row: "row_id row = i" "row_phash row = hash"
    by blast
  have gen0: "generateHash (files st) (up_tmp_name file) = Inr hash"
    using tmp new gen by (rule generateHash_same_content)
  with nodup have "scanRows hash 5 (images st) = Inr None"
    by (simp add: findDuplicate_def)
  then have "scanRows hash t (images st) = Inr None"
    using t(2) by (rule scanRows_None_antimono)
  then have "scanRows hash t (images st') = scanRows hash t [row]"
    unfolding rows by (rule scanRows_append_None)
  also have "\<dots> = Inr (Some (duplicateInfo row 0))"
    using hammingDistance_bits [of hash hash] t(1)
    by (simp add: row bitDifferences_same)
  finally have "findDuplicate st' (uploadDir st' @ filename) t = Inr (Some (duplicateInfo row 0))"
    using gen by (simp add: findDuplicate_def dir)
  moreover have "m_hamming_distance (duplicateInfo row 0) = 0" "m_id (duplicateInfo row 0) = i"
    by (simp_all add: duplicateInfo_def row)
  ultimately show ?thesis using gen dir by simp
qed

theorem saveImage_then_findDuplicate_self_witness:
  "fst (saveImage nearStore (envOf ''img_x'') (uploadOf ''x.png'' ''/tmp/phpX'') False) =
     Inr (Saved 2 ''img_x.png'' ''x.png'' ''0000000000000000'') \<and>
   (\<exists>m. findDuplicate (snd (saveImage nearStore (envOf ''img_x'') (uploadOf ''x.png'' ''/tmp/phpX'') False))
          (uploadDir (snd (saveImage nearStore (envOf ''img_x'') (uploadOf ''x.png'' ''/tmp/phpX'') False))
             @ ''img_x.png'') 5 =
        Inr (Some m) \<and> m_hamming_distance m = 0 \<and> m_id m = 2)"
proof -
  let ?save = "saveImage nearStore (envOf ''img_x'') (uploadOf ''x.png'' ''/tmp/phpX'') False"
  have a: "fst ?save = Inr (Saved 2 ''img_x.png'' ''x.png'' ''0000000000000000'')"
    by code_simp
  then have b: "?save = (Inr (Saved 2 ''img_x.png'' ''x.png'' ''0000000000000000''), snd ?save)"
    by (simp add: prod_eq_iff)
  have c: "(0::int) \<le> 5" "(5::int) \<le> 5" by simp_all
  from a saveImage_then_findDuplicate_self [OF b c] show ?thesis by blast
qed

text \<open>
  The claim C2 itself fails at the threshold 6: the table holds the record C, whose
  fingerprint is 6 bits from that of the black image X, so X is stored (6 is above the
  threshold 5 of the check), and \<^verbatim>\<open>findDuplicate\<close> on the stored X with the threshold 6 stops
  at C and reports the distance 6.
\<close>

theorem saveImage_then_findDuplicate_self_counterexample:
  "fst (saveImage nearStore (envOf ''img_x'') (uploadOf ''x.png'' ''/tmp/phpX'') False) =
     Inr (Saved 2 ''img_x.png'' ''x.png'' ''0000000000000000'') \<and>
   generateHash
     (files (snd (saveImage nearStore (envOf ''img_x'') (uploadOf ''x.png'' ''/tmp/phpX'') False)))
     ''uploads/img_x.png'' = Inr ''0000000000000000'' \<and>
   findDuplicate (snd (saveImage nearStore (envOf ''img_x'') (uploadOf ''x.png'' ''/tmp/phpX'') False))
     ''uploads/img_x.png'' 6 =
     Inr (Some (duplicateInfo (storedRow 1 ''c.png'' ''img_c.png'' ''000000000000003f'') 6)) \<and>
   m_hamming_distance (duplicateInfo (storedRow 1 ''c.png'' ''img_c.png'' ''000000000000003f'') 6) = 6"
  by code_simp

lemma storeUpload_insert_fails:
  assumes "files st (up_tmp_name file) = Some content" "env_move_ok env"
    and "env_insert_error env = Some msg"
  shows "\<exists>msg'. fst (storeUpload st env file mimeType) = DatabaseError msg' \<and>
     snd (storeUpload st env file mimeType) =
       st\<lparr>files := ((files st)(up_tmp_name file := None))
                  (uploadDir st @ newFilename env file := None)\<rparr>"
  using assms
  by (cases "generateHash (((files st)(up_tmp_name file := None))
        (uploadDir st @ newFilename env file \<mapsto> content)) (uploadDir st @ newFilename env file)")
    (simp_all add: storeUpload_def move_uploaded_file_def unlink_def Let_def)

text \<open>
  C4. When the upload has reached the move, the move has succeeded and the \<^verbatim>\<open>INSERT\<close>
  throws, \<^verbatim>\<open>saveImage\<close> returns the database error, the file it had written under the new
  name is gone, and the table and its counter are as before; the files are those of before
  without the temporary file, which the move consumed, and with nothing under the new name.
\<close>

theorem saveImage_rollback_on_insert_failure:
  assumes "up_error file = UPLOAD_ERR_OK"
    and "finfo_file (files st) (up_tmp_name file) = Some mimeType"
    and "mimeType \<in> set allowedTypes"
    and "allowDuplicates \<or> findDuplicate st (up_tmp_name file) 5 = Inr None"
    and "env_move_ok env"
    and "env_insert_error env = Some msg"
  shows "(\<exists>msg'. fst (saveImage st env file allowDuplicates) = Inr (DatabaseError msg')) \<and>
     files (snd (saveImage st env file allowDuplicates)) (uploadDir st @ newFilename env file) = None \<and>
     files (snd (saveImage st env file allowDuplicates)) =
       ((files st)(up_tmp_name file := None))(uploadDir st @ newFilename env file := None) \<and>
     images (snd (saveImage st env file allowDuplicates)) = images st \<and>
     next_id (snd (saveImage st env file allowDuplicates)) = next_id st"
proof -
  from assms(2) obtain content where c: "files st (up_tmp_name file) = Some content"
    by (auto simp add: finfo_file_def)
  have eq: "saveImage st env file allowDuplicates =
      (Inr (fst (storeUpload st env file mimeType)), snd (storeUpload st env file mimeType))"
    using assms(1-4) by (auto simp add: saveImage_def split: prod.splits)
  from storeUpload_insert_fails [OF c assms(5) assms(6), of mimeType]
  show ?thesis unfolding eq by auto
qed

theorem saveImage_rollback_on_insert_failure_witness:
  "fst (saveImage nearStore (failingEnv ''img_x'') (uploadOf ''x.png'' ''/tmp/phpX'') False) =
     Inr (DatabaseError ''SQLSTATE[HY000]'') \<and>
   files (snd (saveImage nearStore (failingEnv ''img_x'') (uploadOf ''x.png'' ''/tmp/phpX'') False))
     ''uploads/img_x.png'' = None \<and>
   images (snd (saveImage nearStore (failingEnv ''img_x'') (uploadOf ''x.png'' ''/tmp/phpX'') False)) =
     images nearStore"
proof -
  let ?file = "uploadOf ''x.png'' ''/tmp/phpX''"
  let ?env = "failingEnv ''img_x''"
  have a: "up_error ?file = UPLOAD_ERR_OK"
    by (simp add: uploadOf_def UPLOAD_ERR_OK_def)
  have b: "finfo_file (files nearStore) (up_tmp_name ?file) = Some ''image/png''"
    by code_simp
  have c: "''image/png'' \<in> set allowedTypes"
    by (simp add: allowedTypes_def)
  have "findDuplicate nearStore (up_tmp_name ?file) 5 = Inr None"
    by code_simp
  then have d: "False \<or> findDuplicate nearStore (up_tmp_name ?file) 5 = Inr None" ..
  have e: "env_move_ok ?env"
    by (simp add: failingEnv_def envOf_def)
  have f: "env_insert_error ?env = Some ''SQLSTATE[HY000]''"
    by (simp add: failingEnv_def)
  have n: "uploadDir nearStore @ newFilename ?env ?file = ''uploads/img_x.png''"
    by code_simp
  have m: "fst (saveImage nearStore ?env ?file False) = Inr (DatabaseError ''SQLSTATE[HY000]'')"
    by code_simp
  from saveImage_rollback_on_insert_failure [OF a b c d e f] m show ?thesis
    unfolding n by blast
qed

section \<open>deleteImage\<close>

lemma find_distinct_id:
  "distinct (map row_id rows) \<Longrightarrow> row \<in> set rows \<Longrightarrow>
   find (\<lambda>r. row_id r = row_id row) rows = Some row"
  by (induction rows) (auto simp add: image_iff)

text \<open>
  C10, as the class has it. \<^verbatim>\<open>deleteImage\<close> with an id that no record has returns false and
  changes nothing. With the id of a record (ids are the primary key, so they are distinct)
  and a \<^verbatim>\<open>DELETE\<close> that succeeds it returns true; afterwards the file of the record does
  not exist, no other file has changed, and the table has lost that record and no other.
\<close>

theorem deleteImage_missing_or_removed:
  "((\<forall>row \<in> set (images st). row_id row \<noteq> ident) \<longrightarrow>
      deleteImage st env ident = (Inr False, st)) \<and>
   (distinct (map row_id (images st)) \<and> row \<in> set (images st) \<and> row_id row = ident \<and>
    env_delete_error env = None \<longrightarrow>
      fst (deleteImage st env ident) = Inr True \<and>
      files (snd (deleteImage st env ident)) (uploadDir st @ row_file_path row) = None \<and>
      (\<forall>path. path \<noteq> uploadDir st @ row_file_path row \<longrightarrow>
         files (snd (deleteImage st env ident)) path = files st path) \<and>
      images (snd (deleteImage st env ident)) = filter (\<lambda>r. r \<noteq> row) (images st) \<and>
      row \<notin> set (images (snd (deleteImage st env ident))))"
proof (intro conjI impI)
  assume "\<forall>row \<in> set (images st). row_id row \<noteq> ident"
  then have "find (\<lambda>row. row_id row = ident) (images st) = None"
    by (simp add: find_None_iff)
  then show "deleteImage st env ident = (Inr False, st)"
    by (simp add: deleteImage_def)
next
  assume a: "distinct (map row_id (images st)) \<and> row \<in> set (images st) \<and> row_id row = ident \<and>
    env_delete_error env = None"
  then have f: "find (\<lambda>r. row_id r = ident) (images st) = Some row"
    using find_distinct_id [of "images st" row] by auto
  from a have ok: "env_delete_error env = None" by simp
  have flt: "filter (\<lambda>r. row_id r \<noteq> ident) (images st) = filter (\<lambda>r. r \<noteq> row) (images st)"
  proof (rule filter_cong [OF refl])
    fix r assume "r \<in> set (images st)"
    with a show "(row_id r \<noteq> ident) = (r \<noteq> row)"
      by (auto simp add: distinct_map inj_on_def)
  qed
  show "fst (deleteImage st env ident) = Inr True"
    by (simp add: deleteImage_def f ok Let_def)
  show "files (snd (deleteImage st env ident)) (uploadDir st @ row_file_path row) = None"
    by (auto simp add: deleteImage_def f ok Let_def unlink_def)
  show "\<forall>path. path \<noteq> uploadDir st @ row_file_path row \<longrightarrow>
         files (snd (deleteImage st env ident)) path = files st path"
    by (simp add: deleteImage_def f ok Let_def unlink_def)
  show i: "images (snd (deleteImage st env ident)) = filter (\<lambda>r. r \<noteq> row) (images st)"
    by (simp add: deleteImage_def f ok Let_def unlink_def flt)
  show "row \<notin> set (images (snd (deleteImage st env ident)))"
    unfolding i by simp
qed

theorem deleteImage_missing_or_removed_witness:
  "deleteImage nearStore (envOf []) 7 = (Inr False, nearStore) \<and>
   fst (deleteImage nearStore (envOf []) 1) = Inr True \<and>
   files nearStore ''uploads/img_c.png'' \<noteq> None \<and>
   files (snd (deleteImage nearStore (envOf []) 1)) ''uploads/img_c.png'' = None \<and>
   images (snd (deleteImage nearStore (envOf []) 1)) = []"
proof -
  let ?row = "storedRow 1 ''c.png'' ''img_c.png'' ''000000000000003f''"
  have i: "images nearStore = [?row]"
    by code_simp
  have u: "uploadDir nearStore @ row_file_path ?row = ''uploads/img_c.png''"
    by code_simp
  have p: "files nearStore ''uploads/img_c.png'' \<noteq> None"
    by code_simp
  have a: "\<forall>row \<in> set (images nearStore). row_id row \<noteq> 7"
    by (simp add: i storedRow_def)
  have b: "distinct (map row_id (images nearStore)) \<and> ?row \<in> set (images nearStore) \<and>
      row_id ?row = 1 \<and> env_delete_error (envOf []) = None"
    by (simp add: i storedRow_def envOf_def)
  from deleteImage_missing_or_removed [of nearStore 7 "envOf []" ?row] a
  have "deleteImage nearStore (envOf []) 7 = (Inr False, nearStore)" by blast
  moreover from deleteImage_missing_or_removed [of nearStore 1 "envOf []" ?row] b
  have "fst (deleteImage nearStore (envOf []) 1) = Inr True \<and>
      files (snd (deleteImage nearStore (envOf []) 1)) ''uploads/img_c.png'' = None \<and>
      images (snd (deleteImage nearStore (envOf []) 1)) = filter (\<lambda>r. r \<noteq> ?row) [?row]"
    unfolding u i by blast
  ultimately show ?thesis using p by simp
qed

text \<open>
  The claim C10 itself fails when the \<^verbatim>\<open>DELETE\<close> throws: the record C exists and its file
  exists; \<^verbatim>\<open>deleteImage\<close> unlinks the file, the exception of the \<^verbatim>\<open>DELETE\<close> leaves the
  method, and the record is still in the table.
\<close>

theorem deleteImage_failed_delete_counterexample:
  "storedRow 1 ''c.png'' ''img_c.png'' ''000000000000003f'' \<in> set (images nearStore) \<and>
   files nearStore ''uploads/img_c.png'' \<noteq> None \<and>
   fst (deleteImage nearStore failingDeleteEnv 1) = Inl (DatabaseFailure ''SQLSTATE[HY000]'') \<and>
   files (snd (deleteImage nearStore failingDeleteEnv 1)) ''uploads/img_c.png'' = None \<and>
   storedRow 1 ''c.png'' ''img_c.png'' ''000000000000003f'' \<in>
     set (images (snd (deleteImage nearStore failingDeleteEnv 1)))"
  by code_simp

end
